theory Spec2Isabelle
  imports Complex_Main "HOL-Library.AList" "HOL-Library.Product_Lexorder" "HOL-Library.Sublist"
begin

chapter \<open>The rate-limited, cached upstream-access core of the Events backend\<close>

text \<open>
  A shallow embedding of \<^verbatim>\<open>Backend/services/rate_limiter.py\<close>,
  \<^verbatim>\<open>Backend/services/twitter_client.py\<close>, \<^verbatim>\<open>Backend/engines/event_engine.py\<close> and
  \<^verbatim>\<open>Backend/engines/attendee_engine.py\<close>. Mutable objects become values that are passed
  in and returned updated; an exception becomes a value; everything the program reads from
  outside (the wall clock, the upstream API, the event search) is a parameter. The methods
  are called from one thread at a time in this model: the locks are not represented.
  Python names that start with an underscore lose it here (\<open>_cache_events\<close> is
  \<open>cache_events\<close>).
\<close>

section \<open>Quota tracker: \<^verbatim>\<open>TwitterRateLimiter\<close>\<close>

text \<open>
  One entry of \<^verbatim>\<open>self.rate_limits\<close>. Points in time (\<^verbatim>\<open>datetime\<close> values and
  \<^verbatim>\<open>time.time()\<close> readings alike) are seconds since the epoch, as real numbers.
\<close>

record limit_info =
  limit :: int
  remaining :: int
  reset_time :: "real option"
  window_minutes :: int

type_synonym rate_limits = "string \<rightharpoonup> limit_info"

definition setup_default_limits :: rate_limits where
  "setup_default_limits =
     [''search_recent'' \<mapsto> \<lparr>limit = 450, remaining = 450, reset_time = None, window_minutes = 15\<rparr>,
      ''users'' \<mapsto> \<lparr>limit = 300, remaining = 300, reset_time = None, window_minutes = 15\<rparr>]"

text \<open>
  \<^verbatim>\<open>check_rate_limit\<close>: the first argument is the reading of \<^verbatim>\<open>datetime.now()\<close>. The
  result is the returned flag and the updated table. A \<^verbatim>\<open>datetime\<close> is always truthy, so
  \<^verbatim>\<open>if limit_info['reset_time'] and ...\<close> tests for \<^verbatim>\<open>None\<close> only.
\<close>

definition check_rate_limit :: "real \<Rightarrow> string \<Rightarrow> rate_limits \<Rightarrow> bool \<times> rate_limits" where
  "check_rate_limit now endpoint rl =
     (case rl endpoint of
        None \<Rightarrow> (True, rl)
      | Some info \<Rightarrow>
          (let info1 =
                 (case reset_time info of
                    Some r \<Rightarrow>
                      if now > r then info\<lparr>remaining := limit info, reset_time := None\<rparr> else info
                  | None \<Rightarrow> info)
           in if remaining info1 > 0
              then (True, rl(endpoint \<mapsto> info1\<lparr>remaining := remaining info1 - 1\<rparr>))
              else (False,
                    rl(endpoint \<mapsto>
                       (case reset_time info1 of
                          None \<Rightarrow>
                            info1\<lparr>reset_time := Some (now + 60 * real_of_int (window_minutes info1))\<rparr>
                        | Some r \<Rightarrow> info1)))))"

text \<open>
  A header value is represented by what \<^verbatim>\<open>int(...)\<close> makes of it: an integer, or a
  \<^verbatim>\<open>ValueError\<close>.
\<close>

datatype header_value = IntLike int | NotIntLike

type_synonym headers = "string \<rightharpoonup> header_value"

datatype exn = ValueError | OverflowError | AttributeError

text \<open>
  \<^verbatim>\<open>datetime.fromtimestamp\<close> is library code: it raises outside the years 1 to 9999 (the
  bounds below are those of a host whose local time is UTC).
\<close>

definition fromtimestamp :: "int \<Rightarrow> real option" where
  "fromtimestamp ts =
     (if - 62135596800 \<le> ts \<and> ts \<le> 253402300799 then Some (real_of_int ts) else None)"

text \<open>
  \<^verbatim>\<open>update_from_headers\<close> assigns field by field, so a header that fails to convert leaves
  the fields before it already overwritten: the result is the exception raised (if any)
  together with the table as it stands at that moment.
\<close>

definition update_from_headers :: "string \<Rightarrow> headers \<Rightarrow> rate_limits \<Rightarrow> exn option \<times> rate_limits" where
  "update_from_headers endpoint hs rl =
     (case rl endpoint of
        None \<Rightarrow> (None, rl)
      | Some info \<Rightarrow>
          (case hs ''x-rate-limit-limit'' of
             Some NotIntLike \<Rightarrow> (Some ValueError, rl)
           | hlim \<Rightarrow>
               (let info1 = (case hlim of Some (IntLike n) \<Rightarrow> info\<lparr>limit := n\<rparr> | _ \<Rightarrow> info)
                in case hs ''x-rate-limit-remaining'' of
                     Some NotIntLike \<Rightarrow> (Some ValueError, rl(endpoint \<mapsto> info1))
                   | hrem \<Rightarrow>
                       (let info2 =
                              (case hrem of Some (IntLike n) \<Rightarrow> info1\<lparr>remaining := n\<rparr> | _ \<Rightarrow> info1)
                        in case hs ''x-rate-limit-reset'' of
                             None \<Rightarrow> (None, rl(endpoint \<mapsto> info2))
                           | Some NotIntLike \<Rightarrow> (Some ValueError, rl(endpoint \<mapsto> info2))
                           | Some (IntLike ts) \<Rightarrow>
                               (case fromtimestamp ts of
                                  None \<Rightarrow> (Some OverflowError, rl(endpoint \<mapsto> info2))
                                | Some t \<Rightarrow>
                                    (None, rl(endpoint \<mapsto> info2\<lparr>reset_time := Some t\<rparr>)))))))"

definition get_wait_time :: "real \<Rightarrow> string \<Rightarrow> rate_limits \<Rightarrow> real" where
  "get_wait_time now endpoint rl =
     (case rl endpoint of
        None \<Rightarrow> 0
      | Some info \<Rightarrow>
          (case reset_time info of
             Some r \<Rightarrow> max (r - now) 0
           | None \<Rightarrow> 60))"

section \<open>Response cache: \<^verbatim>\<open>APICache\<close>\<close>

text \<open>
  What the caller can observe of a value returned by the request function: its truth value,
  its \<^verbatim>\<open>headers\<close> attribute when it has one, and the items of its \<^verbatim>\<open>data\<close> attribute
  (the empty list also stands for a missing or \<^verbatim>\<open>None\<close> attribute).
\<close>

record response =
  resp_truthy :: bool
  resp_headers :: "headers option"
  resp_data :: "string list"

record api_cache =
  entries :: "string \<rightharpoonup> (response \<times> real)"
  ttl :: real

definition new_api_cache :: "real \<Rightarrow> api_cache" where
  "new_api_cache ttl_minutes = \<lparr>entries = Map.empty, ttl = ttl_minutes * 60\<rparr>"

text \<open>\<^verbatim>\<open>APICache.get\<close>, \<^verbatim>\<open>set\<close> and \<^verbatim>\<open>clear_expired\<close>; the first argument is the reading of \<^verbatim>\<open>time.time()\<close>.\<close>

definition cache_get :: "real \<Rightarrow> string \<Rightarrow> api_cache \<Rightarrow> response option \<times> api_cache" where
  "cache_get now key c =
     (case entries c key of
        Some (data, timestamp) \<Rightarrow>
          if now - timestamp < ttl c then (Some data, c)
          else (None, c\<lparr>entries := (entries c)(key := None)\<rparr>)
      | None \<Rightarrow> (None, c))"

definition cache_set :: "real \<Rightarrow> string \<Rightarrow> response \<Rightarrow> api_cache \<Rightarrow> api_cache" where
  "cache_set now key v c = c\<lparr>entries := (entries c)(key \<mapsto> (v, now))\<rparr>"

definition clear_expired :: "real \<Rightarrow> api_cache \<Rightarrow> api_cache" where
  "clear_expired current_time c =
     c\<lparr>entries :=
         (\<lambda>k. case entries c k of
                Some (v, ts) \<Rightarrow> if current_time - ts \<ge> ttl c then None else Some (v, ts)
              | None \<Rightarrow> None)\<rparr>"

section \<open>Guarded upstream caller: \<^verbatim>\<open>TwitterClient\<close>\<close>

text \<open>
  The arguments \<^verbatim>\<open>*args, **kwargs\<close> that \<^verbatim>\<open>make_request_with_retry\<close> hands to the request
  function, and the four ways an invocation of the request function can end.
\<close>

record call_args =
  pos_args :: "string list"
  kw_query :: "string option"
  kw_max_results :: "int option"
  kw_fields :: "(string \<times> string list) list"

datatype outcome = Returned response | TooManyRequests | BadRequest | OtherException

text \<open>
  The request function is code outside the program: \<open>f n a\<close> is how the invocation with
  arguments \<open>a\<close> ends when \<open>n\<close> invocations of the upstream were made before it. Every
  invocation and every \<^verbatim>\<open>time.sleep\<close> is logged, so that they can be counted; a sleep is
  logged with its duration before the random jitter is added.
\<close>

type_synonym request_func = "nat \<Rightarrow> call_args \<Rightarrow> outcome"

datatype effect = Invoked call_args | QuotaSleep real | BackoffSleep real

fun invoked_args :: "effect list \<Rightarrow> call_args list" where
  "invoked_args [] = []"
| "invoked_args (Invoked a # fx) = a # invoked_args fx"
| "invoked_args (QuotaSleep d # fx) = invoked_args fx"
| "invoked_args (BackoffSleep d # fx) = invoked_args fx"

fun backoffs :: "effect list \<Rightarrow> real list" where
  "backoffs [] = []"
| "backoffs (BackoffSleep d # fx) = d # backoffs fx"
| "backoffs (Invoked a # fx) = backoffs fx"
| "backoffs (QuotaSleep d # fx) = backoffs fx"

definition invocations :: "effect list \<Rightarrow> nat" where
  "invocations fx = length (invoked_args fx)"

text \<open>
  The environment: \<open>clock env k\<close> is the wall clock at the \<open>k\<close>-th timed operation of the
  client (any sequence of readings is possible), and \<open>hash_str env q\<close> is
  \<^verbatim>\<open>str(hash(q))\<close>, which Python fixes per process only.
\<close>

record env =
  clock :: "nat \<Rightarrow> real"
  hash_str :: "string \<Rightarrow> string"

text \<open>
  The object: \<^verbatim>\<open>self.client\<close> is represented by its \<^verbatim>\<open>search_recent_tweets\<close> method
  (\<open>None\<close> as in Python), \<open>clock_reads\<close> counts the timed operations so far and \<open>effects\<close> is
  the log.
\<close>

record twitter_client =
  client :: "request_func option"
  rate_limiter :: rate_limits
  cache :: api_cache
  clock_reads :: nat
  effects :: "effect list"

definition new_twitter_client :: "request_func option \<Rightarrow> twitter_client" where
  "new_twitter_client c =
     \<lparr>client = c, rate_limiter = setup_default_limits, cache = new_api_cache 30,
      clock_reads = 0, effects = []\<rparr>"

definition is_operational :: "twitter_client \<Rightarrow> bool" where
  "is_operational s = (client s \<noteq> None)"

definition max_retries :: nat where
  "max_retries = 1"

definition base_delay :: real where
  "base_delay = 2"

text \<open>Lines 52 to 58: the quota check, and the bounded wait when it is denied.\<close>

definition wait_if_limited :: "env \<Rightarrow> string \<Rightarrow> twitter_client \<Rightarrow> twitter_client" where
  "wait_if_limited e endpoint s =
     (let (ok, rl) = check_rate_limit (clock e (clock_reads s)) endpoint (rate_limiter s);
          s1 = s\<lparr>rate_limiter := rl, clock_reads := clock_reads s + 1\<rparr>
      in if ok then s1
         else (let wait_time = get_wait_time (clock e (clock_reads s1)) endpoint (rate_limiter s1)
               in s1\<lparr>clock_reads := clock_reads s1 + 1,
                      effects := effects s1 @ [QuotaSleep (min wait_time 15)]\<rparr>))"

text \<open>
  \<^verbatim>\<open>query = kwargs.get('query') or (args[0] if args else None)\<close>, and the cache key of
  lines 62 to 66 (an empty query is falsy and gives no key).
\<close>

definition request_query :: "call_args \<Rightarrow> string option" where
  "request_query a =
     (let positional = (case pos_args a of [] \<Rightarrow> None | x # xs \<Rightarrow> Some x)
      in case kw_query a of
           Some q \<Rightarrow> if q \<noteq> [] then Some q else positional
         | None \<Rightarrow> positional)"

definition derive_cache_key :: "env \<Rightarrow> string \<Rightarrow> call_args \<Rightarrow> string option" where
  "derive_cache_key e endpoint a =
     (if endpoint = ''search_recent''
      then (case request_query a of
              Some q \<Rightarrow> if q \<noteq> [] then Some (''search_'' @ hash_str e q) else None
            | None \<Rightarrow> None)
      else None)"

text \<open>One pass through the loop body either returns from the function or goes on.\<close>

datatype step = Return "response option" | Continue

text \<open>The handler \<^verbatim>\<open>except Exception\<close> (lines 104 to 111).\<close>

definition on_exception :: "nat \<Rightarrow> twitter_client \<Rightarrow> step \<times> twitter_client" where
  "on_exception attempt s =
     (if attempt < max_retries
      then (Continue, s\<lparr>effects := effects s @ [BackoffSleep (base_delay * 2 ^ attempt)]\<rparr>)
      else (Return None, s))"

text \<open>The handler \<^verbatim>\<open>except tweepy.TooManyRequests\<close> (lines 86 to 98).\<close>

definition on_too_many_requests :: "nat \<Rightarrow> twitter_client \<Rightarrow> step \<times> twitter_client" where
  "on_too_many_requests attempt s =
     (if attempt < max_retries
      then (Continue,
            s\<lparr>effects := effects s @ [BackoffSleep (min (base_delay * 2 ^ attempt) 10)]\<rparr>)
      else (Return None, s))"

text \<open>Lines 76 to 84: what follows a request function that returned.\<close>

definition on_response :: "env \<Rightarrow> string \<Rightarrow> string option \<Rightarrow> nat \<Rightarrow> response \<Rightarrow> twitter_client \<Rightarrow> step \<times> twitter_client" where
  "on_response e endpoint cache_key attempt r s =
     (let (raised, rl) =
            (case resp_headers r of
               Some hs \<Rightarrow> update_from_headers endpoint hs (rate_limiter s)
             | None \<Rightarrow> (None, rate_limiter s));
          s1 = s\<lparr>rate_limiter := rl\<rparr>
      in case raised of
           Some x \<Rightarrow> on_exception attempt s1
         | None \<Rightarrow>
             (case cache_key of
                Some k \<Rightarrow>
                  if resp_truthy r
                  then (Return (Some r),
                        s1\<lparr>cache := cache_set (clock e (clock_reads s1)) k r (cache s1),
                           clock_reads := clock_reads s1 + 1\<rparr>)
                  else (Return (Some r), s1)
              | None \<Rightarrow> (Return (Some r), s1)))"

text \<open>
  Lines 62 to 70: the lookup in the response cache. It happens only when a key was derived,
  and \<^verbatim>\<open>if cached:\<close> takes a stored value only when it is truthy.
\<close>

definition cache_lookup :: "env \<Rightarrow> string option \<Rightarrow> twitter_client \<Rightarrow> response option \<times> twitter_client" where
  "cache_lookup e cache_key s =
     (case cache_key of
        Some k \<Rightarrow>
          (let (cached, c) = cache_get (clock e (clock_reads s)) k (cache s);
               s1 = s\<lparr>cache := c, clock_reads := clock_reads s + 1\<rparr>
           in case cached of
                Some v \<Rightarrow> if resp_truthy v then (Some v, s1) else (None, s1)
              | None \<Rightarrow> (None, s1))
      | None \<Rightarrow> (None, s))"

text \<open>Lines 60 to 111: the \<^verbatim>\<open>try\<close> block with its handlers.\<close>

definition try_request :: "env \<Rightarrow> request_func \<Rightarrow> string \<Rightarrow> call_args \<Rightarrow> nat \<Rightarrow> twitter_client \<Rightarrow> step \<times> twitter_client" where
  "try_request e request_func endpoint a attempt s =
     (let cache_key = derive_cache_key e endpoint a;
          (hit, s1) = cache_lookup e cache_key s
      in case hit of
           Some cached \<Rightarrow> (Return (Some cached), s1)
         | None \<Rightarrow>
             (let s2 = s1\<lparr>effects := effects s1 @ [Invoked a]\<rparr>
              in case request_func (invocations (effects s1)) a of
                   Returned r \<Rightarrow> on_response e endpoint cache_key attempt r s2
                 | TooManyRequests \<Rightarrow> on_too_many_requests attempt s2
                 | BadRequest \<Rightarrow> (Return None, s2)
                 | OtherException \<Rightarrow> on_exception attempt s2))"

text \<open>
  \<^verbatim>\<open>for attempt in range(max_retries + 1)\<close>, with the \<^verbatim>\<open>return None\<close> that follows the loop.
  The result is the returned value (\<open>None\<close> as in Python) and the object afterwards.
\<close>

fun retry_loop :: "env \<Rightarrow> request_func \<Rightarrow> string \<Rightarrow> call_args \<Rightarrow> nat list \<Rightarrow> twitter_client \<Rightarrow> response option \<times> twitter_client" where
  "retry_loop e request_func endpoint a [] s = (None, s)"
| "retry_loop e request_func endpoint a (attempt # rest) s =
     (case try_request e request_func endpoint a attempt (wait_if_limited e endpoint s) of
        (Return r, s') \<Rightarrow> (r, s')
      | (Continue, s') \<Rightarrow> retry_loop e request_func endpoint a rest s')"

definition make_request_with_retry :: "env \<Rightarrow> request_func \<Rightarrow> string \<Rightarrow> call_args \<Rightarrow> twitter_client \<Rightarrow> response option \<times> twitter_client" where
  "make_request_with_retry e request_func endpoint a s =
     retry_loop e request_func endpoint a [0..<max_retries + 1] s"

text \<open>
  \<^verbatim>\<open>search_recent_tweets_safe\<close>: with \<^verbatim>\<open>self.client\<close> unset the attribute access raises
  \<^verbatim>\<open>AttributeError\<close> before anything is called, and the handler returns \<^verbatim>\<open>None\<close>.
\<close>

definition search_recent_tweets_safe :: "env \<Rightarrow> string \<Rightarrow> int \<Rightarrow> (string \<times> string list) list \<Rightarrow> twitter_client \<Rightarrow> response option \<times> twitter_client" where
  "search_recent_tweets_safe e query max_results kwargs s =
     (let twitter_max_results = max 10 (min max_results 100)
      in case client s of
           None \<Rightarrow> (None, s)
         | Some search_recent_tweets \<Rightarrow>
             make_request_with_retry e search_recent_tweets ''search_recent''
               \<lparr>pos_args = [], kw_query = Some query,
                kw_max_results = Some twitter_max_results, kw_fields = kwargs\<rparr> s)"

section \<open>Strings and slices of the Python library\<close>

text \<open>
  Characters are bytes here, and the library functions below are modelled on ASCII text:
  \<^verbatim>\<open>str.isspace\<close> holds for the codes 9 to 13 and 28 to 32, \<^verbatim>\<open>\w\<close> matches letters, digits
  and the underscore, \<^verbatim>\<open>str.lower\<close> maps \<open>A\<close> to \<open>Z\<close>.
\<close>

definition is_space :: "char \<Rightarrow> bool" where
  "is_space c = (let n = (of_char c :: nat) in (9 \<le> n \<and> n \<le> 13) \<or> (28 \<le> n \<and> n \<le> 32))"

definition is_digit :: "char \<Rightarrow> bool" where
  "is_digit c = (let n = (of_char c :: nat) in 48 \<le> n \<and> n \<le> 57)"

definition is_upper :: "char \<Rightarrow> bool" where
  "is_upper c = (let n = (of_char c :: nat) in 65 \<le> n \<and> n \<le> 90)"

definition is_word :: "char \<Rightarrow> bool" where
  "is_word c =
     (let n = (of_char c :: nat)
      in is_digit c \<or> is_upper c \<or> (97 \<le> n \<and> n \<le> 122) \<or> n = 95)"


definition strip :: "string \<Rightarrow> string" where
  "strip s = rev (dropWhile is_space (rev (dropWhile is_space s)))"

text \<open>\<^verbatim>\<open>s.split(sep)\<close> for a separator of one character.\<close>

fun split_on :: "char \<Rightarrow> string \<Rightarrow> string list" where
  "split_on sep [] = [[]]"
| "split_on sep (c # cs) =
     (if c = sep then [] # split_on sep cs
      else (case split_on sep cs of
              p # ps \<Rightarrow> (c # p) # ps
            | [] \<Rightarrow> [[c]]))"

text \<open>The slice \<^verbatim>\<open>xs[:n]\<close>: a negative \<open>n\<close> counts from the end.\<close>

definition slice_to :: "'a list \<Rightarrow> int \<Rightarrow> 'a list" where
  "slice_to xs n = (if 0 \<le> n then take (nat n) xs else take (length xs - nat (- n)) xs)"

text \<open>
  \<^verbatim>\<open>datetime.strptime(s, '%Y-%m-%d')\<close>: four digits, then a month and a day of one or two
  digits (the day may also be a space and a digit), separated by hyphens, and a date of the
  calendar; \<open>None\<close> is the \<^verbatim>\<open>ValueError\<close>. The result is compared as \<^verbatim>\<open>datetime\<close> values
  are: by year, then month, then day.
\<close>

type_synonym datetime = "nat \<times> nat \<times> nat"

definition number_of :: "string \<Rightarrow> nat" where
  "number_of ds = foldl (\<lambda>n c. 10 * n + (of_char c - 48)) 0 ds"

definition digits :: "string \<Rightarrow> bool" where
  "digits ds = (ds \<noteq> [] \<and> list_all is_digit ds)"

definition days_in_month :: "nat \<Rightarrow> nat \<Rightarrow> nat" where
  "days_in_month y m =
     (if m = 2 then (if y mod 4 = 0 \<and> (y mod 100 \<noteq> 0 \<or> y mod 400 = 0) then 29 else 28)
      else if m = 4 \<or> m = 6 \<or> m = 9 \<or> m = 11 then 30 else 31)"

definition day_token :: "string \<Rightarrow> nat option" where
  "day_token d =
     (case d of
        [s, c] \<Rightarrow>
          if s = CHR '' '' \<and> is_digit c \<and> c \<noteq> CHR ''0'' then Some (number_of [c])
          else if digits d then Some (number_of d) else None
      | _ \<Rightarrow> if digits d \<and> length d \<le> 2 then Some (number_of d) else None)"

definition strptime :: "string \<Rightarrow> datetime option" where
  "strptime s =
     (case split_on CHR ''-'' s of
        [y, m, d] \<Rightarrow>
          (case day_token d of
             Some dd \<Rightarrow>
               if length y = 4 \<and> digits y \<and> digits m \<and> length m \<le> 2
                  \<and> 1 \<le> number_of y \<and> 1 \<le> number_of m \<and> number_of m \<le> 12
                  \<and> 1 \<le> dd \<and> dd \<le> days_in_month (number_of y) (number_of m)
               then Some (number_of y, number_of m, dd)
               else None
           | None \<Rightarrow> None)
      | _ \<Rightarrow> None)"

section \<open>Attendee discovery: \<^verbatim>\<open>SmartAttendeeEngine\<close>\<close>

record research_attendee =
  attendee_name :: string
  username :: string
  bio :: string
  location :: string
  followers_count :: int
  verified :: bool
  confidence_score :: real
  source_tweet :: string
  posted_by :: string

text \<open>
  The text heuristics of the engine are parameters: \<open>process_response r query\<close> is the list
  of tweet dictionaries that lines 114 to 137 of \<^verbatim>\<open>_search_twitter_safe\<close> build from a
  response (empty when they raise), \<open>extract_attendees\<close> is
  \<^verbatim>\<open>_extract_attendees_from_tweets\<close> and \<open>calculate_confidence_scores\<close> is the method of
  that name.
\<close>

record 't heuristics =
  process_response :: "response \<Rightarrow> string \<Rightarrow> 't list"
  extract_attendees :: "'t list \<Rightarrow> string \<Rightarrow> research_attendee list"
  calculate_confidence_scores :: "research_attendee list \<Rightarrow> research_attendee list"

text \<open>\<^verbatim>\<open>re.sub(r'[^\w\s]', '', event_name).strip()\<close> and the query built from it.\<close>

definition build_single_query :: "string \<Rightarrow> string" where
  "build_single_query event_name =
     (let clean_name = strip (filter (\<lambda>c. is_word c \<or> is_space c) event_name)
      in if clean_name = [] then []
         else [CHR 0x22] @ clean_name @ [CHR 0x22] @ '' OR attending '' @ [CHR 0x22]
              @ clean_name @ [CHR 0x22] @ '' -is:retweet'')"

definition search_twitter_safe :: "env \<Rightarrow> 't heuristics \<Rightarrow> string \<Rightarrow> int \<Rightarrow> twitter_client \<Rightarrow> 't list \<times> twitter_client" where
  "search_twitter_safe e h query max_results tc =
     (if query = [] then ([], tc)
      else (let tweets_needed = max 10 (min (max_results * 3) 100);
                (tweets, tc') =
                  search_recent_tweets_safe e query tweets_needed
                    [(''tweet_fields'', [''author_id'', ''created_at'', ''text'', ''public_metrics'']),
                     (''user_fields'',
                      [''username'', ''name'', ''verified'', ''description'', ''location'',
                       ''public_metrics'']),
                     (''expansions'', [''author_id''])] tc
            in case tweets of
                 None \<Rightarrow> ([], tc')
               | Some r \<Rightarrow>
                   if \<not> resp_truthy r \<or> resp_data r = [] then ([], tc')
                   else (process_response h r query, tc')))"

text \<open>
  \<^verbatim>\<open>discover_attendees\<close>. The engine always holds a \<^verbatim>\<open>TwitterClient\<close> object, which is
  truthy, so the guard of line 43 is the operational flag.
\<close>

definition discover_attendees :: "env \<Rightarrow> 't heuristics \<Rightarrow> string \<Rightarrow> int \<Rightarrow> twitter_client \<Rightarrow> research_attendee list \<times> twitter_client" where
  "discover_attendees e h event_name max_results tc =
     (if \<not> is_operational tc then ([], tc)
      else (let query = build_single_query event_name;
                (tweets, tc') = search_twitter_safe e h query max_results tc
            in if tweets = [] then ([], tc')
               else (let attendees = extract_attendees h tweets event_name;
                         scored_attendees = calculate_confidence_scores h attendees
                     in (slice_to scored_attendees max_results, tc'))))"

section \<open>Partial-hit range cache: \<^verbatim>\<open>SmartEventEngine\<close>\<close>

record research_event =
  event_name :: string
  exact_date :: string
  exact_venue :: string
  location :: string
  category :: string
  confidence_score :: real
  source_tweet :: string
  posted_by :: string

text \<open>
  \<^verbatim>\<open>self.event_cache\<close>: per location a dictionary from \<^verbatim>\<open>"start_end"\<close> to the events
  fetched for that range. A Python dictionary iterates in the order in which its keys were
  first inserted, and assigning to a key it has keeps the key's place; the inner dictionary
  is therefore an association list under \<open>AList.update\<close> and \<open>AList.delete\<close>.
\<close>

type_synonym range_dict = "(string \<times> research_event list) list"

type_synonym event_cache = "string \<rightharpoonup> range_dict"





definition range_key :: "string \<Rightarrow> string \<Rightarrow> string" where
  "range_key start_date end_date = start_date @ ''_'' @ end_date"

text \<open>\<^verbatim>\<open>_cache_events\<close>; \<^verbatim>\<open>next(iter(d))\<close> is the first key of the dictionary.\<close>

definition cache_events :: "event_cache \<Rightarrow> string \<Rightarrow> string \<Rightarrow> string \<Rightarrow> research_event list \<Rightarrow> event_cache" where
  "cache_events event_cache loc start_date end_date events =
     (let ranges = (case event_cache loc of None \<Rightarrow> [] | Some r \<Rightarrow> r);
          cache_key = range_key start_date end_date;
          ranges1 = AList.update cache_key events ranges
      in event_cache(loc \<mapsto>
           (if length ranges1 > 5
            then (case ranges1 of
                    (oldest_key, v) # rest \<Rightarrow> AList.delete oldest_key ranges1
                  | [] \<Rightarrow> ranges1)
            else ranges1)))"








chapter \<open>Notions used by the properties\<close>

text \<open>
  The definitions of this chapter are not code of the program: they name the notions the
  properties below speak about, and fix the concrete inputs of the examples.
\<close>

text \<open>
  A sequence of operations on the quota tracker, and the bound on \<open>remaining\<close>. Headers are
  consistent when they carry the limit and the remaining count together, as integers with
  \<open>0 \<le> remaining \<le> limit\<close>, or carry neither.
\<close>

datatype quota_op = CheckAndConsume real string | UpdateFromUpstream string headers

fun apply_quota_op :: "rate_limits \<Rightarrow> quota_op \<Rightarrow> rate_limits" where
  "apply_quota_op rl (CheckAndConsume now endpoint) = snd (check_rate_limit now endpoint rl)"
| "apply_quota_op rl (UpdateFromUpstream endpoint hs) = snd (update_from_headers endpoint hs rl)"

definition run_quota_ops :: "quota_op list \<Rightarrow> rate_limits \<Rightarrow> rate_limits" where
  "run_quota_ops ops rl = foldl apply_quota_op rl ops"

definition within_quota :: "rate_limits \<Rightarrow> string \<Rightarrow> bool" where
  "within_quota rl endpoint =
     (case rl endpoint of
        None \<Rightarrow> True
      | Some info \<Rightarrow> 0 \<le> remaining info \<and> remaining info \<le> limit info)"

definition consistent_headers :: "headers \<Rightarrow> bool" where
  "consistent_headers hs =
     (case (hs ''x-rate-limit-limit'', hs ''x-rate-limit-remaining'') of
        (None, None) \<Rightarrow> True
      | (Some (IntLike l), Some (IntLike r)) \<Rightarrow> 0 \<le> r \<and> r \<le> l
      | _ \<Rightarrow> False)"

fun consistent_op :: "quota_op \<Rightarrow> bool" where
  "consistent_op (CheckAndConsume now endpoint) = True"
| "consistent_op (UpdateFromUpstream endpoint hs) = consistent_headers hs"

text \<open>
  What a call adds to the log of a client, the time at which the first attempt of a call
  looks into the response cache, whether that lookup answers the call, and the budget a
  quota check decides on (the remaining count after the reset that is due, if any).
\<close>

definition new_effects :: "twitter_client \<Rightarrow> twitter_client \<Rightarrow> effect list" where
  "new_effects s s' = drop (length (effects s)) (effects s')"


definition cache_hit :: "env \<Rightarrow> string \<Rightarrow> call_args \<Rightarrow> twitter_client \<Rightarrow> bool" where
  "cache_hit e endpoint a s =
     (fst (cache_lookup e (derive_cache_key e endpoint a) (wait_if_limited e endpoint s)) \<noteq> None)"

text \<open>Every value the response cache holds is truthy.\<close>

definition cache_truthy :: "twitter_client \<Rightarrow> bool" where
  "cache_truthy s = (\<forall>k v ts. entries (cache s) k = Some (v, ts) \<longrightarrow> resp_truthy v)"


text \<open>Concrete inputs for the examples.\<close>

definition steady_env :: env where
  "steady_env = \<lparr>clock = (\<lambda>k. 1000 + real k), hash_str = (\<lambda>q. q)\<rparr>"

definition plain_response :: response where
  "plain_response = \<lparr>resp_truthy = True, resp_headers = None, resp_data = [''tweet'']\<rparr>"

definition query_args :: "string \<Rightarrow> call_args" where
  "query_args q = \<lparr>pos_args = [], kw_query = Some q, kw_max_results = Some 10, kw_fields = []\<rparr>"


definition always_returns :: "response \<Rightarrow> request_func" where
  "always_returns r n a = Returned r"

definition always_raises :: "outcome \<Rightarrow> request_func" where
  "always_raises x n a = x"

definition throttled_then_bad :: request_func where
  "throttled_then_bad n a = (if n = 0 then TooManyRequests else BadRequest)"



text \<open>
  The keys a location holds, oldest first; a sequence of insertions; the bound on a group.
\<close>

definition group_keys :: "event_cache \<Rightarrow> string \<Rightarrow> string list" where
  "group_keys event_cache loc = (case event_cache loc of None \<Rightarrow> [] | Some ranges \<Rightarrow> map fst ranges)"

type_synonym insertion = "string \<times> string \<times> string \<times> research_event list"

fun insert_range :: "event_cache \<Rightarrow> insertion \<Rightarrow> event_cache" where
  "insert_range event_cache (loc, start_date, end_date, events) =
     cache_events event_cache loc start_date end_date events"

definition insert_all :: "insertion list \<Rightarrow> event_cache \<Rightarrow> event_cache" where
  "insert_all ins event_cache = foldl insert_range event_cache ins"

definition bounded_group :: "event_cache \<Rightarrow> string \<Rightarrow> bool" where
  "bounded_group event_cache loc =
     (distinct (group_keys event_cache loc) \<and> length (group_keys event_cache loc) \<le> 5)"

definition under :: "string \<Rightarrow> (string \<times> string \<times> research_event list) list \<Rightarrow> insertion list" where
  "under loc rs = map (\<lambda>(s, e, evs). (loc, s, e, evs)) rs"

definition keys_of :: "(string \<times> string \<times> research_event list) list \<Rightarrow> string list" where
  "keys_of rs = map (\<lambda>(s, e, evs). range_key s e) rs"



text \<open>Concrete events and caches for the examples.\<close>

definition expo :: "string \<Rightarrow> string \<Rightarrow> research_event" where
  "expo name date =
     \<lparr>event_name = name, exact_date = date, exact_venue = ''Hall 1'', location = ''Austin'',
      category = ''other'', confidence_score = 0.85, source_tweet = ''https://example.org'',
      posted_by = ''Google Events''\<rparr>"


definition six_ranges :: "(string \<times> string \<times> research_event list) list" where
  "six_ranges =
     [(''2024-01-01'', ''2024-01-31'', [expo ''A'' ''2024-01-05'']),
      (''2024-02-01'', ''2024-02-29'', [expo ''B'' ''2024-02-05'']),
      (''2024-03-01'', ''2024-03-31'', [expo ''C'' ''2024-03-05'']),
      (''2024-04-01'', ''2024-04-30'', [expo ''D'' ''2024-04-05'']),
      (''2024-05-01'', ''2024-05-31'', [expo ''E'' ''2024-05-05'']),
      (''2024-06-01'', ''2024-06-30'', [expo ''F'' ''2024-06-05''])]"



chapter \<open>Properties\<close>

section \<open>Quota tracker\<close>




text \<open>The bound \<open>0 \<le> remaining \<le> limit\<close> is kept by each operation on consistent headers.\<close>

lemma check_rate_limit_within_quota:
  "within_quota rl ep \<Longrightarrow> within_quota (snd (check_rate_limit now ep' rl)) ep"
  by (auto simp: within_quota_def check_rate_limit_def Let_def split: option.splits if_splits)

lemma update_from_headers_within_quota:
  "consistent_headers hs \<Longrightarrow> within_quota rl ep \<Longrightarrow>
   within_quota (snd (update_from_headers ep' hs rl)) ep"
  by (auto simp: within_quota_def update_from_headers_def consistent_headers_def Let_def
      split: option.splits if_splits header_value.splits)

lemma apply_quota_op_within_quota:
  "consistent_op op \<Longrightarrow> within_quota rl ep \<Longrightarrow> within_quota (apply_quota_op rl op) ep"
  by (cases op) (simp_all add: check_rate_limit_within_quota update_from_headers_within_quota)

lemma setup_default_limits_within_quota: "within_quota setup_default_limits ep"
  by (simp add: within_quota_def setup_default_limits_def)

text \<open>
  C5, as the claim states it, fails: \<^verbatim>\<open>update_from_headers\<close> stores the header values as
  they come. From the default limits, one upstream response that reports a remaining count
  of \<open>-1\<close> leaves \<open>remaining\<close> negative.
\<close>

theorem update_from_headers_breaks_quota_bound:
  "\<not> within_quota
       (run_quota_ops
          [UpdateFromUpstream ''search_recent'' [''x-rate-limit-remaining'' \<mapsto> IntLike (- 1)]]
          setup_default_limits)
       ''search_recent''"
  by (simp add: within_quota_def run_quota_ops_def update_from_headers_def
      setup_default_limits_def)

text \<open>
  C5, as amended: for every endpoint and every sequence of checks and of upstream updates
  whose headers are consistent, \<open>0 \<le> remaining \<le> limit\<close> holds after the sequence whenever it
  held before it; it holds for the limits the tracker is constructed with.
\<close>

theorem quota_bound_invariant:
  assumes "list_all consistent_op ops"
  shows "(within_quota rl endpoint \<longrightarrow> within_quota (run_quota_ops ops rl) endpoint)
         \<and> within_quota (run_quota_ops ops setup_default_limits) endpoint"
proof -
  have step: "within_quota rl' endpoint \<Longrightarrow> within_quota (foldl apply_quota_op rl' ops) endpoint"
    for rl'
    using assms
    by (induction ops arbitrary: rl') (simp_all add: apply_quota_op_within_quota)
  show ?thesis
    unfolding run_quota_ops_def
    using step setup_default_limits_within_quota by blast
qed

theorem quota_bound_invariant_witness:
  "within_quota
     (run_quota_ops
        [CheckAndConsume 5 ''search_recent'',
         UpdateFromUpstream ''search_recent''
           [''x-rate-limit-limit'' \<mapsto> IntLike 450, ''x-rate-limit-remaining'' \<mapsto> IntLike 448],
         CheckAndConsume 6 ''search_recent'']
        setup_default_limits)
     ''search_recent''"
  using quota_bound_invariant
    [of "[CheckAndConsume 5 ''search_recent'',
          UpdateFromUpstream ''search_recent''
            [''x-rate-limit-limit'' \<mapsto> IntLike 450, ''x-rate-limit-remaining'' \<mapsto> IntLike 448],
          CheckAndConsume 6 ''search_recent'']" setup_default_limits "''search_recent''"]
  by (simp add: consistent_headers_def)

section \<open>Guarded upstream caller\<close>

text \<open>The log only grows, and each pass through the loop adds at most one invocation.\<close>

lemma invoked_args_append: "invoked_args (xs @ ys) = invoked_args xs @ invoked_args ys"
  by (induction xs rule: invoked_args.induct) simp_all

lemma backoffs_append: "backoffs (xs @ ys) = backoffs xs @ backoffs ys"
  by (induction xs rule: backoffs.induct) simp_all

lemma attempts: "[0..<max_retries + 1] = [0, 1]"
  by (simp add: max_retries_def upt_rec)

lemma make_request_with_retry_attempts:
  "make_request_with_retry e f ep a s = retry_loop e f ep a [0, 1] s"
  unfolding make_request_with_retry_def attempts ..

lemma wait_if_limited_effects:
  "\<exists>w. effects (wait_if_limited e ep s) = effects s @ w \<and> invoked_args w = [] \<and> backoffs w = []"
  by (auto simp: wait_if_limited_def Let_def split: prod.splits)

lemma cache_lookup_effects: "effects (snd (cache_lookup e k s)) = effects s"
  by (auto simp: cache_lookup_def Let_def split: prod.splits option.splits)

lemma on_exception_effects:
  "\<exists>w. effects (snd (on_exception n s)) = effects s @ w \<and> invoked_args w = []"
  by (auto simp: on_exception_def)

lemma on_too_many_requests_effects:
  "\<exists>w. effects (snd (on_too_many_requests n s)) = effects s @ w \<and> invoked_args w = []"
  by (auto simp: on_too_many_requests_def)

lemma on_response_effects:
  "\<exists>w. effects (snd (on_response e ep k n r s)) = effects s @ w \<and> invoked_args w = []"
proof -
  obtain raised rl where u:
    "(case resp_headers r of
        Some hs \<Rightarrow> update_from_headers ep hs (rate_limiter s)
      | None \<Rightarrow> (None, rate_limiter s)) = (raised, rl)"
    by (cases "case resp_headers r of
        Some hs \<Rightarrow> update_from_headers ep hs (rate_limiter s)
      | None \<Rightarrow> (None, rate_limiter s)")
  show ?thesis
  proof (cases raised)
    case None
    then show ?thesis using u
      by (auto simp: on_response_def Let_def split: option.splits)
  next
    case (Some x)
    then show ?thesis
      using u on_exception_effects [of n "s\<lparr>rate_limiter := rl\<rparr>"]
      by (simp add: on_response_def Let_def)
  qed
qed

lemma try_request_effects:
  "\<exists>w. effects (snd (try_request e f ep a n s)) = effects s @ w
       \<and> (invoked_args w = [] \<or> invoked_args w = [a])"
proof -
  obtain hit s1 where l: "cache_lookup e (derive_cache_key e ep a) s = (hit, s1)"
    by (cases "cache_lookup e (derive_cache_key e ep a) s")
  then have s1: "effects s1 = effects s"
    using cache_lookup_effects [of e "derive_cache_key e ep a" s] by simp
  let ?s2 = "s1\<lparr>effects := effects s1 @ [Invoked a]\<rparr>"
  show ?thesis
  proof (cases hit)
    case (Some v)
    then show ?thesis using l s1 by (simp add: try_request_def)
  next
    case None
    show ?thesis
    proof (cases "f (invocations (effects s1)) a")
      case (Returned r)
      obtain w where "effects (snd (on_response e ep (derive_cache_key e ep a) n r ?s2)) = effects ?s2 @ w"
        "invoked_args w = []" using on_response_effects by blast
      then show ?thesis using l s1 None Returned
        by (simp add: try_request_def invoked_args_append)
    next
      case TooManyRequests
      obtain w where "effects (snd (on_too_many_requests n ?s2)) = effects ?s2 @ w"
        "invoked_args w = []" using on_too_many_requests_effects by blast
      then show ?thesis using l s1 None TooManyRequests
        by (simp add: try_request_def invoked_args_append)
    next
      case BadRequest
      then show ?thesis using l s1 None by (simp add: try_request_def)
    next
      case OtherException
      obtain w where "effects (snd (on_exception n ?s2)) = effects ?s2 @ w"
        "invoked_args w = []" using on_exception_effects by blast
      then show ?thesis using l s1 None OtherException
        by (simp add: try_request_def invoked_args_append)
    qed
  qed
qed

lemma attempt_effects:
  "\<exists>w. effects (snd (try_request e f ep a n (wait_if_limited e ep s))) = effects s @ w
       \<and> (invoked_args w = [] \<or> invoked_args w = [a])"
proof -
  obtain w1 where w1: "effects (wait_if_limited e ep s) = effects s @ w1" "invoked_args w1 = []"
    using wait_if_limited_effects by blast
  obtain w2 where w2: "effects (snd (try_request e f ep a n (wait_if_limited e ep s)))
      = effects (wait_if_limited e ep s) @ w2" "invoked_args w2 = [] \<or> invoked_args w2 = [a]"
    using try_request_effects by blast
  show ?thesis
    by (rule exI [of _ "w1 @ w2"]) (use w1 w2 in \<open>auto simp: invoked_args_append\<close>)
qed

lemma retry_loop_effects:
  "\<exists>w. effects (snd (retry_loop e f ep a ns s)) = effects s @ w
       \<and> list_all (\<lambda>x. x = a) (invoked_args w) \<and> length (invoked_args w) \<le> length ns"
proof (induction ns arbitrary: s)
  case Nil
  then show ?case by simp
next
  case (Cons n ns)
  obtain st s' where t: "try_request e f ep a n (wait_if_limited e ep s) = (st, s')"
    by (cases "try_request e f ep a n (wait_if_limited e ep s)")
  obtain w1 where w1: "effects s' = effects s @ w1" "invoked_args w1 = [] \<or> invoked_args w1 = [a]"
    using attempt_effects [of e f ep a n s] t by auto
  show ?case
  proof (cases st)
    case (Return r)
    then show ?thesis using t w1 by auto
  next
    case Continue
    obtain w2 where w2: "effects (snd (retry_loop e f ep a ns s')) = effects s' @ w2"
      "list_all (\<lambda>x. x = a) (invoked_args w2)" "length (invoked_args w2) \<le> length ns"
      using Cons.IH by blast
    show ?thesis
      by (rule exI [of _ "w1 @ w2"]) (use t Continue w1 w2 in \<open>auto simp: invoked_args_append\<close>)
  qed
qed

lemma new_effects_append: "effects s' = effects s @ w \<Longrightarrow> new_effects s s' = w"
  by (simp add: new_effects_def)

lemma wait_if_limited_invocations:
  "invocations (effects (wait_if_limited e ep s)) = invocations (effects s)"
  using wait_if_limited_effects [of e ep s]
  by (auto simp: invocations_def invoked_args_append)

lemma make_request_with_retry_effects:
  "\<exists>w. effects (snd (make_request_with_retry e f ep a s)) = effects s @ w
       \<and> list_all (\<lambda>x. x = a) (invoked_args w) \<and> length (invoked_args w) \<le> 2"
  using retry_loop_effects [of e f ep a "[0, 1]" s]
  by (auto simp: make_request_with_retry_attempts)

text \<open>
  C2: whatever the request function does at each invocation, one call of
  \<^verbatim>\<open>make_request_with_retry\<close> invokes it at most twice.
\<close>

theorem make_request_with_retry_at_most_two_invocations:
  "invocations (effects (snd (make_request_with_retry e f endpoint a s)))
     \<le> invocations (effects s) + 2"
proof -
  obtain w where "effects (snd (make_request_with_retry e f endpoint a s)) = effects s @ w"
    and "length (invoked_args w) \<le> 2"
    using make_request_with_retry_effects by blast
  then show ?thesis
    by (simp add: invocations_def invoked_args_append)
qed

text \<open>The bound is reached: a request function that always fails is invoked twice.\<close>

theorem make_request_with_retry_at_most_two_invocations_witness:
  "invocations (effects (snd (make_request_with_retry steady_env (always_raises OtherException)
       ''users'' (query_args ''q'') (new_twitter_client None)))) = 2"
proof -
  have "2 \<le> invocations (effects (snd (make_request_with_retry steady_env
       (always_raises OtherException) ''users'' (query_args ''q'') (new_twitter_client None))))"
    by (simp add: make_request_with_retry_attempts try_request_def wait_if_limited_def
        check_rate_limit_def cache_lookup_def derive_cache_key_def on_exception_def
        always_raises_def new_twitter_client_def setup_default_limits_def
        max_retries_def invocations_def Let_def)
  moreover have "effects (new_twitter_client None) = []"
    by (simp add: new_twitter_client_def)
  ultimately show ?thesis
    using make_request_with_retry_at_most_two_invocations
      [of steady_env "always_raises OtherException" "''users''" "query_args ''q''"
          "new_twitter_client None"]
    by (simp add: invocations_def)
qed


lemma wait_if_limited_fields:
  "rate_limiter (wait_if_limited e ep s) =
     snd (check_rate_limit (clock e (clock_reads s)) ep (rate_limiter s))"
  "cache (wait_if_limited e ep s) = cache s"
  "client (wait_if_limited e ep s) = client s"
  by (auto simp: wait_if_limited_def Let_def split: prod.splits)


text \<open>
  The response cache only ever receives truthy values (line 81 stores a response only when
  it is truthy), so the truth test of line 68 never hides a stored value.
\<close>

lemma wait_if_limited_truthy: "cache_truthy s \<Longrightarrow> cache_truthy (wait_if_limited e ep s)"
  by (simp add: cache_truthy_def wait_if_limited_fields)

lemma cache_lookup_truthy: "cache_truthy s \<Longrightarrow> cache_truthy (snd (cache_lookup e k s))"
  by (auto simp: cache_truthy_def cache_lookup_def cache_get_def Let_def
      split: option.splits prod.splits if_splits)

lemma on_exception_truthy: "cache_truthy s \<Longrightarrow> cache_truthy (snd (on_exception n s))"
  by (simp add: cache_truthy_def on_exception_def)

lemma on_too_many_requests_truthy:
  "cache_truthy s \<Longrightarrow> cache_truthy (snd (on_too_many_requests n s))"
  by (simp add: cache_truthy_def on_too_many_requests_def)

lemma on_response_truthy: "cache_truthy s \<Longrightarrow> cache_truthy (snd (on_response e ep k n r s))"
  by (auto simp: cache_truthy_def on_response_def on_exception_def cache_set_def Let_def
      split: option.splits prod.splits if_splits)

lemma try_request_truthy:
  assumes "cache_truthy s"
  shows "cache_truthy (snd (try_request e f ep a n s))"
proof -
  obtain hit s1 where l: "cache_lookup e (derive_cache_key e ep a) s = (hit, s1)"
    by (cases "cache_lookup e (derive_cache_key e ep a) s")
  have s1: "cache_truthy s1"
    using cache_lookup_truthy [OF assms, of e "derive_cache_key e ep a"] l by simp
  then have s2: "cache_truthy (s1\<lparr>effects := effects s1 @ [Invoked a]\<rparr>)"
    by (simp add: cache_truthy_def)
  show ?thesis
  proof (cases hit)
    case (Some v)
    then show ?thesis using l s1 by (simp add: try_request_def)
  next
    case None
    then show ?thesis
      using l on_response_truthy [OF s2] on_too_many_requests_truthy [OF s2]
        on_exception_truthy [OF s2] s2
      by (cases "f (invocations (effects s1)) a") (simp_all add: try_request_def)
  qed
qed

lemma retry_loop_truthy:
  "cache_truthy s \<Longrightarrow> cache_truthy (snd (retry_loop e f ep a ns s))"
proof (induction ns arbitrary: s)
  case Nil
  then show ?case by simp
next
  case (Cons n ns)
  have t: "cache_truthy (snd (try_request e f ep a n (wait_if_limited e ep s)))"
    using Cons.prems by (intro try_request_truthy wait_if_limited_truthy)
  obtain st s' where r: "try_request e f ep a n (wait_if_limited e ep s) = (st, s')"
    by (cases "try_request e f ep a n (wait_if_limited e ep s)")
  show ?case using t r Cons.IH [of s'] by (cases st) simp_all
qed

lemma make_request_with_retry_truthy:
  "cache_truthy s \<Longrightarrow> cache_truthy (snd (make_request_with_retry e f ep a s))"
  unfolding make_request_with_retry_attempts by (rule retry_loop_truthy)

lemma new_twitter_client_truthy: "cache_truthy (new_twitter_client c)"
  by (simp add: cache_truthy_def new_twitter_client_def new_api_cache_def)





text \<open>
  C9, as the claim states it, fails when the bad request is the answer to the retry: the
  first invocation is throttled, the call backs off for 2 seconds and invokes again, and
  that second invocation raises the bad-request signal. The call made two invocations.
\<close>

theorem bad_request_on_second_attempt:
  "throttled_then_bad 1 (query_args ''q'') = BadRequest
   \<and> fst (make_request_with_retry steady_env throttled_then_bad ''users'' (query_args ''q'')
            (new_twitter_client None)) = None
   \<and> invocations (effects (snd (make_request_with_retry steady_env throttled_then_bad ''users''
            (query_args ''q'') (new_twitter_client None)))) = 2
   \<and> backoffs (effects (snd (make_request_with_retry steady_env throttled_then_bad ''users''
            (query_args ''q'') (new_twitter_client None)))) = [2]"
  by (simp add: make_request_with_retry_attempts try_request_def wait_if_limited_def
      check_rate_limit_def cache_lookup_def derive_cache_key_def on_too_many_requests_def
      throttled_then_bad_def new_twitter_client_def setup_default_limits_def
      max_retries_def base_delay_def invocations_def Let_def)

text \<open>
  C9, as amended: when the first attempt of a call is not answered from the response cache
  and the request function raises the bad-request signal at its first invocation, the call
  returns \<^verbatim>\<open>None\<close>, has invoked the request function exactly once, has not backed off, and
  that invocation is the last thing it did.
\<close>

theorem bad_request_on_first_invocation_not_retried:
  assumes miss: "\<not> cache_hit e endpoint a s"
    and bad: "f (invocations (effects s)) a = BadRequest"
  shows "fst (make_request_with_retry e f endpoint a s) = None
       \<and> invoked_args (new_effects s (snd (make_request_with_retry e f endpoint a s))) = [a]
       \<and> backoffs (new_effects s (snd (make_request_with_retry e f endpoint a s))) = []
       \<and> last (effects (snd (make_request_with_retry e f endpoint a s))) = Invoked a"
proof -
  let ?w = "wait_if_limited e endpoint s"
  obtain hit s1 where l: "cache_lookup e (derive_cache_key e endpoint a) ?w = (hit, s1)"
    by (cases "cache_lookup e (derive_cache_key e endpoint a) ?w")
  have hit: "hit = None"
    using miss l by (simp add: cache_hit_def)
  have s1: "effects s1 = effects ?w"
    using cache_lookup_effects [of e "derive_cache_key e endpoint a" ?w] l by simp
  have b: "f (invocations (effects s1)) a = BadRequest"
    using bad s1 by (simp add: wait_if_limited_invocations)
  have t: "try_request e f endpoint a 0 ?w =
      (Return None, s1\<lparr>effects := effects s1 @ [Invoked a]\<rparr>)"
    using l hit b by (simp add: try_request_def)
  have r: "make_request_with_retry e f endpoint a s =
      (None, s1\<lparr>effects := effects s1 @ [Invoked a]\<rparr>)"
    using t by (simp add: make_request_with_retry_attempts)
  obtain q where q: "effects ?w = effects s @ q" "invoked_args q = []" "backoffs q = []"
    using wait_if_limited_effects by blast
  have n: "new_effects s (s1\<lparr>effects := effects s1 @ [Invoked a]\<rparr>) = q @ [Invoked a]"
    using q s1 by (simp add: new_effects_append)
  show ?thesis
    using r n q by (simp add: invoked_args_append backoffs_append)
qed

theorem bad_request_on_first_invocation_not_retried_witness:
  "fst (make_request_with_retry steady_env (always_raises BadRequest) ''users''
          (query_args ''q'') (new_twitter_client None)) = None
   \<and> invocations (effects (snd (make_request_with_retry steady_env (always_raises BadRequest)
          ''users'' (query_args ''q'') (new_twitter_client None)))) = 1"
proof -
  have m: "\<not> cache_hit steady_env ''users'' (query_args ''q'') (new_twitter_client None)"
    by (simp add: cache_hit_def cache_lookup_def derive_cache_key_def)
  have b: "always_raises BadRequest (invocations (effects (new_twitter_client None)))
             (query_args ''q'') = BadRequest"
    by (simp add: always_raises_def)
  have e: "effects (new_twitter_client None) = []"
    by (simp add: new_twitter_client_def)
  show ?thesis
    using bad_request_on_first_invocation_not_retried
      [of steady_env "''users''" "query_args ''q''" "new_twitter_client None"
          "always_raises BadRequest"] m b e
    by (simp add: new_effects_def invocations_def)
qed

text \<open>
  C10: every invocation of the upstream search that a call of
  \<^verbatim>\<open>search_recent_tweets_safe\<close> makes carries \<open>max_results = max(10, min(max_results, 100))\<close>:
  10 for a request below 10, 100 for a request above 100.
\<close>

theorem search_recent_tweets_safe_clamps_max_results:
  "prefix (effects s) (effects (snd (search_recent_tweets_safe e query max_results kwargs s)))
   \<and> list_all (\<lambda>a. kw_max_results a = Some (max 10 (min max_results 100)))
       (invoked_args (new_effects s (snd (search_recent_tweets_safe e query max_results kwargs s))))
   \<and> (max_results < 10 \<longrightarrow>
        list_all (\<lambda>a. kw_max_results a = Some 10)
          (invoked_args
             (new_effects s (snd (search_recent_tweets_safe e query max_results kwargs s)))))
   \<and> (100 < max_results \<longrightarrow>
        list_all (\<lambda>a. kw_max_results a = Some 100)
          (invoked_args
             (new_effects s (snd (search_recent_tweets_safe e query max_results kwargs s)))))"
proof (cases "client s")
  case None
  then show ?thesis by (simp add: search_recent_tweets_safe_def new_effects_def)
next
  case (Some f)
  let ?a = "\<lparr>pos_args = [], kw_query = Some query,
             kw_max_results = Some (max 10 (min max_results 100)), kw_fields = kwargs\<rparr>"
  obtain w where w:
    "effects (snd (make_request_with_retry e f ''search_recent'' ?a s)) = effects s @ w"
    "list_all (\<lambda>x. x = ?a) (invoked_args w)"
    using make_request_with_retry_effects by blast
  have r: "search_recent_tweets_safe e query max_results kwargs s =
      make_request_with_retry e f ''search_recent'' ?a s"
    using Some by (simp add: search_recent_tweets_safe_def Let_def)
  have n: "new_effects s (snd (search_recent_tweets_safe e query max_results kwargs s)) = w"
    using r w by (simp add: new_effects_append)
  have k: "list_all (\<lambda>a. kw_max_results a = Some (max 10 (min max_results 100))) (invoked_args w)"
    using w(2) by (auto simp: list_all_iff)
  have lo: "max_results < 10 \<Longrightarrow> max 10 (min max_results 100) = 10"
    and hi: "100 < max_results \<Longrightarrow> max 10 (min max_results 100) = 100"
    by auto
  show ?thesis
    using r w(1) n k lo hi by auto
qed

theorem search_recent_tweets_safe_clamps_max_results_witness:
  "map kw_max_results
     (invoked_args (new_effects (new_twitter_client (Some (always_returns plain_response)))
        (snd (search_recent_tweets_safe steady_env ''q'' 3 []
                (new_twitter_client (Some (always_returns plain_response)))))))
   = [Some 10]"
  using search_recent_tweets_safe_clamps_max_results
    [of "new_twitter_client (Some (always_returns plain_response))" steady_env "''q''" 3 "[]"]
  by (simp add: search_recent_tweets_safe_def make_request_with_retry_attempts try_request_def
      wait_if_limited_def check_rate_limit_def cache_lookup_def cache_get_def
      derive_cache_key_def request_query_def on_response_def cache_set_def
      always_returns_def plain_response_def new_twitter_client_def setup_default_limits_def
      new_api_cache_def steady_env_def new_effects_def invocations_def Let_def)

section \<open>Attendee discovery\<close>

text \<open>
  C6: with the inner client unset, \<^verbatim>\<open>discover_attendees\<close> returns the empty list and leaves
  the client object as it was: nothing is added to the log (no upstream invocation, no
  sleep) and the quota tracker is unchanged.
\<close>

theorem discover_attendees_not_operational:
  assumes "client tc = None"
  shows "\<not> is_operational tc
       \<and> fst (discover_attendees e h name max_results tc) = []
       \<and> snd (discover_attendees e h name max_results tc) = tc
       \<and> invoked_args (new_effects tc (snd (discover_attendees e h name max_results tc))) = []
       \<and> rate_limiter (snd (discover_attendees e h name max_results tc)) = rate_limiter tc"
  using assms by (simp add: discover_attendees_def is_operational_def new_effects_def)

theorem discover_attendees_not_operational_witness:
  "fst (discover_attendees steady_env
          \<lparr>process_response = (\<lambda>r q. resp_data r), extract_attendees = (\<lambda>ts n. []),
           calculate_confidence_scores = (\<lambda>xs. xs)\<rparr>
          ''Gala Night'' 5 (new_twitter_client None)) = []
   \<and> rate_limiter
       (snd (discover_attendees steady_env
          \<lparr>process_response = (\<lambda>r q. resp_data r), extract_attendees = (\<lambda>ts n. []),
           calculate_confidence_scores = (\<lambda>xs. xs)\<rparr>
          ''Gala Night'' 5 (new_twitter_client None))) = setup_default_limits"
proof -
  have c: "client (new_twitter_client None) = None"
    by (simp add: new_twitter_client_def)
  show ?thesis
    using discover_attendees_not_operational
      [OF c, of steady_env
         "\<lparr>process_response = (\<lambda>r q. resp_data r), extract_attendees = (\<lambda>ts n. []),
           calculate_confidence_scores = (\<lambda>xs. xs)\<rparr>" "''Gala Night''" 5]
    by (simp add: new_twitter_client_def)
qed

section \<open>Partial-hit range cache\<close>







lemma strptime_rejects_2024_02_30: "strptime ''2024-02-30'' = None"
  by (simp add: strptime_def day_token_def digits_def is_digit_def number_of_def
      days_in_month_def)





text \<open>The keys of a group after one insertion, and the bound it keeps.\<close>

lemma update_keys_fresh:
  "k \<notin> set (map fst al) \<Longrightarrow> map fst (AList.update k v al) = map fst al @ [k]"
  by (simp add: update_keys)

lemma update_keys_old:
  "k \<in> set (map fst al) \<Longrightarrow> map fst (AList.update k v al) = map fst al"
  by (simp add: update_keys)

lemma delete_head:
  "distinct (map fst (p # ps)) \<Longrightarrow> AList.delete (fst p) (p # ps) = ps"
  by (cases p) (simp add: image_iff)

lemma cache_events_other:
  "loc' \<noteq> loc \<Longrightarrow> group_keys (cache_events c loc s e evs) loc' = group_keys c loc'"
  by (simp add: cache_events_def group_keys_def Let_def)

lemma cache_events_keys:
  assumes "bounded_group c loc"
  shows "group_keys (cache_events c loc s e evs) loc =
     (if range_key s e \<in> set (group_keys c loc) then group_keys c loc
      else if length (group_keys c loc) < 5 then group_keys c loc @ [range_key s e]
      else tl (group_keys c loc) @ [range_key s e])"
proof -
  let ?ranges = "case c loc of None \<Rightarrow> [] | Some r \<Rightarrow> r"
  let ?r1 = "AList.update (range_key s e) evs ?ranges"
  have g: "group_keys c loc = map fst ?ranges"
    by (simp add: group_keys_def split: option.splits)
  have d: "distinct (map fst ?ranges)" and b: "length ?ranges \<le> 5"
    using assms g by (simp_all add: bounded_group_def)
  have d1: "distinct (map fst ?r1)" using d by (rule distinct_update)
  have res: "group_keys (cache_events c loc s e evs) loc =
      map fst (if length ?r1 > 5
               then (case ?r1 of (oldest_key, v) # rest \<Rightarrow> AList.delete oldest_key ?r1 | [] \<Rightarrow> ?r1)
               else ?r1)"
    by (simp add: cache_events_def group_keys_def Let_def)
  show ?thesis
  proof (cases "range_key s e \<in> set (map fst ?ranges)")
    case True
    then have k: "map fst ?r1 = map fst ?ranges"
      by (rule update_keys_old)
    then have "length ?r1 = length ?ranges"
      by (metis length_map)
    then have "\<not> length ?r1 > 5" using b by simp
    then show ?thesis using res k g True by simp
  next
    case False
    then have k: "map fst ?r1 = map fst ?ranges @ [range_key s e]"
      by (rule update_keys_fresh)
    then have len: "length ?r1 = Suc (length ?ranges)"
      by (metis length_append_singleton length_map)
    show ?thesis
    proof (cases "length ?r1 > 5")
      case False
      then show ?thesis using res k g \<open>range_key s e \<notin> set (map fst ?ranges)\<close> len by simp
    next
      case big: True
      then obtain p ps where r1: "?r1 = p # ps" by (cases ?r1) auto
      have del: "AList.delete (fst p) ?r1 = ps" using d1 r1 delete_head by metis
      have "map fst ps = tl (map fst ?ranges @ [range_key s e])"
        using k r1 by (metis list.sel(3) list.simps(9))
      moreover have "?ranges \<noteq> []" using big len by auto
      ultimately have t: "map fst ps = tl (map fst ?ranges) @ [range_key s e]"
        by simp
      have "group_keys (cache_events c loc s e evs) loc = map fst ps"
        using res big r1 del by (cases p) simp
      then show ?thesis using t g \<open>range_key s e \<notin> set (map fst ?ranges)\<close> big len
        by simp
    qed
  qed
qed

lemma cache_events_bounded:
  assumes "bounded_group c loc'"
  shows "bounded_group (cache_events c loc s e evs) loc'"
proof (cases "loc' = loc")
  case False
  then show ?thesis using assms by (simp add: bounded_group_def cache_events_other)
next
  case True
  have d: "distinct (group_keys c loc)" and b: "length (group_keys c loc) \<le> 5"
    using assms True by (simp_all add: bounded_group_def)
  have "distinct (tl (group_keys c loc))" using d by (rule distinct_tl)
  moreover have "set (tl (group_keys c loc)) \<subseteq> set (group_keys c loc)"
    by (cases "group_keys c loc") auto
  ultimately show ?thesis
    using assms True d b cache_events_keys [of c loc s e evs]
    by (auto simp: bounded_group_def)
qed

lemma insert_all_bounded:
  "bounded_group c loc \<Longrightarrow> bounded_group (insert_all ins c) loc"
  unfolding insert_all_def
proof (induction ins arbitrary: c)
  case Nil
  then show ?case by simp
next
  case (Cons i ins)
  obtain l s e evs where i: "i = (l, s, e, evs)" by (cases i)
  show ?case using Cons i by (simp add: cache_events_bounded)
qed

lemma empty_bounded: "bounded_group Map.empty loc"
  by (simp add: bounded_group_def group_keys_def)

lemma range_key_inj:
  assumes "CHR ''_'' \<notin> set s1" and "CHR ''_'' \<notin> set s2"
    and "range_key s1 e1 = range_key s2 e2"
  shows "s1 = s2 \<and> e1 = e2"
  using assms
proof (induction s1 arbitrary: s2)
  case Nil
  then show ?case by (cases s2) (auto simp: range_key_def)
next
  case (Cons c s1)
  then show ?case by (cases s2) (auto simp: range_key_def)
qed

text \<open>Inserting ranges with fresh, distinct keys under one location keeps the last five.\<close>

lemma insert_fresh_keys:
  assumes "bounded_group c loc" and "distinct (keys_of rs)"
    and "set (keys_of rs) \<inter> set (group_keys c loc) = {}"
  shows "group_keys (insert_all (under loc rs) c) loc =
     drop (length (group_keys c loc @ keys_of rs) - 5) (group_keys c loc @ keys_of rs)"
  using assms
proof (induction rs arbitrary: c)
  case Nil
  then show ?case by (simp add: insert_all_def under_def keys_of_def bounded_group_def)
next
  case (Cons r rs)
  obtain s e evs where r: "r = (s, e, evs)" by (cases r)
  let ?c = "cache_events c loc s e evs"
  let ?k = "range_key s e"
  have fresh: "?k \<notin> set (group_keys c loc)" and dk: "?k \<notin> set (keys_of rs)"
    and drs: "distinct (keys_of rs)" and disj: "set (keys_of rs) \<inter> set (group_keys c loc) = {}"
    using Cons.prems r by (auto simp: keys_of_def)
  have b: "length (group_keys c loc) \<le> 5"
    using Cons.prems(1) by (simp add: bounded_group_def)
  have keys: "group_keys ?c loc =
      (if length (group_keys c loc) < 5 then group_keys c loc @ [?k]
       else tl (group_keys c loc) @ [?k])"
    using cache_events_keys [OF Cons.prems(1), of s e evs] fresh by simp
  have sub: "set (group_keys ?c loc) \<subseteq> insert ?k (set (group_keys c loc))"
    using keys by (cases "group_keys c loc") (auto split: if_splits)
  have bc: "bounded_group ?c loc"
    using Cons.prems(1) by (rule cache_events_bounded)
  have disj': "set (keys_of rs) \<inter> set (group_keys ?c loc) = {}"
    using sub disj dk by auto
  have step: "group_keys (insert_all (under loc rs) ?c) loc =
      drop (length (group_keys ?c loc @ keys_of rs) - 5) (group_keys ?c loc @ keys_of rs)"
    using Cons.IH [OF bc drs disj'] .
  have unf: "insert_all (under loc (r # rs)) c = insert_all (under loc rs) ?c"
    using r by (simp add: insert_all_def under_def)
  have kk: "keys_of (r # rs) = ?k # keys_of rs"
    using r by (simp add: keys_of_def)
  show ?case
  proof (cases "length (group_keys c loc) < 5")
    case True
    then show ?thesis using step unf kk keys by simp
  next
    case False
    then have l5: "length (group_keys c loc) = 5" using b by simp
    then obtain x xs where g: "group_keys c loc = x # xs" "length xs = 4"
      by (cases "group_keys c loc") auto
    show ?thesis using step unf kk keys l5 g by simp
  qed
qed

lemma distinct_keys_of:
  assumes "distinct (map (\<lambda>(s, e, evs). (s, e)) rs)"
    and "\<forall>(s, e, evs) \<in> set rs. CHR ''_'' \<notin> set s"
  shows "distinct (keys_of rs)"
  using assms
proof (induction rs)
  case Nil
  then show ?case by (simp add: keys_of_def)
next
  case (Cons r rs)
  obtain s e evs where r: "r = (s, e, evs)" by (cases r)
  have "range_key s e \<notin> set (keys_of rs)"
  proof
    assume "range_key s e \<in> set (keys_of rs)"
    then obtain s' e' evs' where m: "(s', e', evs') \<in> set rs" "range_key s e = range_key s' e'"
      by (auto simp: keys_of_def)
    then have "s = s' \<and> e = e'"
      using Cons.prems(2) r range_key_inj [of s s' e e'] by auto
    then have "(s, e) \<in> set (map (\<lambda>(s, e, evs). (s, e)) rs)"
      using m(1) by force
    then show False using Cons.prems(1) r by simp
  qed
  moreover have "distinct (keys_of rs)"
    using Cons by simp
  ultimately show ?case using r by (simp add: keys_of_def)
qed

text \<open>
  C7: after any sequence of insertions into the cache of a new engine a location holds at
  most 5 ranges; inserting a range with a new key into a group that holds 5 drops the
  oldest key and appends the new one; and after inserting 6 ranges with distinct
  \<open>(start, end)\<close> pairs under one location (date strings hold no underscore) exactly the
  last 5 remain, in insertion order, and the first is gone.
\<close>

theorem range_cache_keeps_five_most_recent:
  "length (group_keys (insert_all ins Map.empty) loc) \<le> 5
   \<and> (bounded_group c loc \<and> length (group_keys c loc) = 5
        \<and> range_key s e \<notin> set (group_keys c loc) \<longrightarrow>
      group_keys (cache_events c loc s e evs) loc = tl (group_keys c loc) @ [range_key s e])
   \<and> (length rs = 6 \<and> distinct (map (\<lambda>(s, e, evs). (s, e)) rs)
        \<and> (\<forall>(s, e, evs) \<in> set rs. CHR ''_'' \<notin> set s) \<longrightarrow>
      group_keys (insert_all (under loc rs) Map.empty) loc = keys_of (tl rs)
      \<and> length (group_keys (insert_all (under loc rs) Map.empty) loc) = 5
      \<and> hd (keys_of rs) \<notin> set (group_keys (insert_all (under loc rs) Map.empty) loc))"
proof (intro conjI impI)
  show "length (group_keys (insert_all ins Map.empty) loc) \<le> 5"
    using insert_all_bounded [where c = Map.empty and loc = loc and ins = ins, OF empty_bounded]
    by (simp add: bounded_group_def)
next
  assume "bounded_group c loc \<and> length (group_keys c loc) = 5
        \<and> range_key s e \<notin> set (group_keys c loc)"
  then show "group_keys (cache_events c loc s e evs) loc = tl (group_keys c loc) @ [range_key s e]"
    using cache_events_keys [of c loc s e evs] by simp
next
  assume a: "length rs = 6 \<and> distinct (map (\<lambda>(s, e, evs). (s, e)) rs)
        \<and> (\<forall>(s, e, evs) \<in> set rs. CHR ''_'' \<notin> set s)"
  then have d: "distinct (keys_of rs)" using distinct_keys_of by blast
  have l: "length (keys_of rs) = 6" using a by (simp add: keys_of_def)
  have k: "group_keys (insert_all (under loc rs) Map.empty) loc = drop 1 (keys_of rs)"
    using insert_fresh_keys [where c = Map.empty and loc = loc and rs = rs, OF empty_bounded d] l
    by (simp add: group_keys_def)
  obtain r rs' where r: "rs = r # rs'" using a by (cases rs) auto
  have t: "drop 1 (keys_of rs) = keys_of (tl rs)"
    using r by (simp add: keys_of_def)
  show "group_keys (insert_all (under loc rs) Map.empty) loc = keys_of (tl rs)"
    using k t by simp
  show "length (group_keys (insert_all (under loc rs) Map.empty) loc) = 5"
    using k l by simp
  show "hd (keys_of rs) \<notin> set (group_keys (insert_all (under loc rs) Map.empty) loc)"
    using k d r by (simp add: keys_of_def)
qed

theorem range_cache_keeps_five_most_recent_witness:
  "group_keys (insert_all (under ''Austin'' six_ranges) Map.empty) ''Austin'' =
     [''2024-02-01_2024-02-29'', ''2024-03-01_2024-03-31'', ''2024-04-01_2024-04-30'',
      ''2024-05-01_2024-05-31'', ''2024-06-01_2024-06-30'']"
  using range_cache_keeps_five_most_recent [of "[]" "''Austin''" Map.empty "''x''" "''y''" "[]" six_ranges]
  by (simp add: six_ranges_def keys_of_def range_key_def)













end
